theory Spec2Isabelle
  imports Main "HOL-Library.Sublist"
begin

section \<open>JavaScript strings and objects\<close>

text \<open>
  A string is the list of its code units. The model keeps the code units below 256
  (Latin-1), which covers HTTP header names, host names and the ASCII header values the
  request executor inspects. On this range \<open>String.prototype.toLowerCase\<close> adds 32 to
  the letters A-Z and to the accented capitals 192-222 (except the multiplication sign
  215) and leaves every other code unit alone.
\<close>

definition lower_char :: "char \<Rightarrow> char" where
  "lower_char c =
     (let n = (of_char c :: nat) in
      if (65 \<le> n \<and> n \<le> 90) \<or> (192 \<le> n \<and> n \<le> 222 \<and> n \<noteq> 215)
      then char_of (n + 32) else c)"

definition toLowerCase :: "string \<Rightarrow> string" where
  "toLowerCase s = map lower_char s"

text \<open>
  The ASCII-only case folding that the specification speaks of ("equal up to ASCII
  case"): only A-Z are folded.
\<close>

definition ascii_lower_char :: "char \<Rightarrow> char" where
  "ascii_lower_char c =
     (let n = (of_char c :: nat) in
      if 65 \<le> n \<and> n \<le> 90 then char_of (n + 32) else c)"

definition ascii_case_eq :: "string \<Rightarrow> string \<Rightarrow> bool" where
  "ascii_case_eq a b = (map ascii_lower_char a = map ascii_lower_char b)"

text \<open>
  White space as \<open>trim\<close> and the regular expression class \<open>\s\<close> see it, below 256:
  tab, line feed, vertical tab, form feed, carriage return, space, no-break space.
\<close>

definition is_space :: "char \<Rightarrow> bool" where
  "is_space c = ((of_char c :: nat) \<in> {9, 10, 11, 12, 13, 32, 160})"

definition trim :: "string \<Rightarrow> string" where
  "trim s = rev (dropWhile is_space (rev (dropWhile is_space s)))"

text \<open>\<open>s.indexOf(c)\<close> for a one-character pattern: the first index, or -1.\<close>

fun indexOf :: "char \<Rightarrow> string \<Rightarrow> int" where
  "indexOf c [] = - 1"
| "indexOf c (x # xs) =
     (if x = c then 0
      else (let i = indexOf c xs in if i < 0 then - 1 else i + 1))"

text \<open>
  \<open>s.substr(start, length)\<close> and \<open>s.substr(start)\<close>: a negative start counts from the
  end, a start past the end gives the empty string, a length that is not positive gives
  the empty string.
\<close>

definition substr_start :: "string \<Rightarrow> int \<Rightarrow> nat" where
  "substr_start s start =
     (let n = int (length s) in
      nat (if start < 0 then max (n + start) 0 else min start n))"

definition substr :: "string \<Rightarrow> int \<Rightarrow> int \<Rightarrow> string" where
  "substr s start len =
     (if len \<le> 0 then [] else take (nat len) (drop (substr_start s start) s))"

definition substr_from :: "string \<Rightarrow> int \<Rightarrow> string" where
  "substr_from s start = drop (substr_start s start) s"

text \<open>
  \<open>s.split(c)\<close> for a one-character separator: the pieces between the separators,
  empty pieces included; the empty string splits into one empty piece.
\<close>

fun split_str :: "char \<Rightarrow> string \<Rightarrow> string list" where
  "split_str c [] = [[]]"
| "split_str c (x # xs) =
     (if x = c then [] # split_str c xs
      else (case split_str c xs of
              [] \<Rightarrow> [[x]]
            | p # ps \<Rightarrow> (x # p) # ps))"

definition startsWith :: "string \<Rightarrow> string \<Rightarrow> bool" where
  "startsWith s p = prefix p s"

text \<open>A string that may be \<open>null\<close> or \<open>undefined\<close> is truthy when it is present and not empty.\<close>

definition truthy_str :: "string option \<Rightarrow> bool" where
  "truthy_str v = (case v of None \<Rightarrow> False | Some s \<Rightarrow> s \<noteq> [])"

text \<open>
  An object with string keys is the list of its own properties in enumeration order
  (the order of \<open>for ... in\<close>); its keys are distinct. Assigning to a key that exists
  replaces the value in place, assigning to a new key appends the property.
\<close>

type_synonym header_obj = "(string \<times> string) list"

definition obj_set :: "header_obj \<Rightarrow> string \<Rightarrow> string \<Rightarrow> header_obj" where
  "obj_set obj k v =
     (if k \<in> set (map fst obj)
      then map (\<lambda>(k', v'). if k' = k then (k', v) else (k', v')) obj
      else obj @ [(k, v)])"

text \<open>
  The values \<open>yargs\<close> puts into its result: a flag is absent (\<open>undefined\<close>), or holds a
  string, a number (a value that reads as a number), a boolean (a flag without a
  value) or an array (a repeated flag).
\<close>

datatype jsval = Undefined | JStr string | JNum int | JBool bool | JArr "jsval list"

fun truthy :: "jsval \<Rightarrow> bool" where
  "truthy Undefined = False"
| "truthy (JStr s) = (s \<noteq> [])"
| "truthy (JNum n) = (n \<noteq> 0)"
| "truthy (JBool b) = b"
| "truthy (JArr xs) = True"

text \<open>\<open>a || b\<close>\<close>

definition js_or :: "jsval \<Rightarrow> jsval \<Rightarrow> jsval" where
  "js_or a b = (if truthy a then a else b)"

datatype exn = TypeError string | EncodingError string


section \<open>Data model\<close>

record http_request =
  req_method :: jsval
  req_url :: jsval
  req_headers :: "header_obj option"
  req_body :: jsval
  req_rawBody :: jsval

record settings =
  timeoutInMilliseconds :: int
  followRedirect :: bool
  proxy :: "string option"
  proxyStrictSSL :: bool
  excludeHostsForProxy :: "string list option"
  defaultUserAgent :: string

record auth =
  user :: string
  pass :: string
  sendImmediately :: bool

text \<open>
  The transport options \<open>send\<close> builds, without the fields that come from the file
  system or are constants (url encoding, cookie jar, client certificate, gzip,
  keep-alive).
\<close>

record options =
  opt_headers :: header_obj
  opt_method :: jsval
  opt_body :: jsval
  opt_timeout :: int
  opt_followRedirect :: bool
  opt_auth :: "auth option"
  opt_proxy :: "string option"
  opt_strictSSL :: bool

text \<open>The two fields of \<open>url.parse(requestUrl)\<close> the code reads; each is \<open>null\<close> when absent.\<close>

record parsed_url =
  hostname :: "string option"
  port :: "string option"

record transport_error =
  message :: "string option"
  err_code :: "string option"

type_synonym buffer = "char list"
type_synonym decoded_text = "nat list"

datatype response_body = Decoded decoded_text | Raw buffer

record raw_response =
  res_statusCode :: int
  res_statusMessage :: string
  res_httpVersion :: string
  res_headers :: header_obj
  res_rawHeaders :: "string list"
  res_elapsedTime :: int
  res_timingPhases :: "int list"

record http_response =
  statusCode :: int
  statusMessage :: string
  httpVersion :: string
  headers :: "string \<rightharpoonup> string"
  body :: response_body
  elapsedTime :: int
  originUrl :: jsval
  bodySizeInBytes :: int
  headersSizeInBytes :: int
  bodyStream :: buffer
  timingPhases :: "int list"

datatype outcome = Resolve http_response | Reject transport_error | Throw exn


section \<open>HttpClient\<close>

subsection \<open>getHeaderValue\<close>

text \<open>
  \<^verbatim>\<open>for (var key in headers) { if (key.toLowerCase() === headerName.toLowerCase()) return headers[key]; }\<close>
  and \<open>null\<close> when the loop ends or \<open>headers\<close> is missing.
\<close>

fun getHeaderValue_loop :: "header_obj \<Rightarrow> string list \<Rightarrow> string \<Rightarrow> string option" where
  "getHeaderValue_loop hs [] headerName = None"
| "getHeaderValue_loop hs (key # keys) headerName =
     (if toLowerCase key = toLowerCase headerName then map_of hs key
      else getHeaderValue_loop hs keys headerName)"

definition getHeaderValue :: "header_obj option \<Rightarrow> string \<Rightarrow> string option" where
  "getHeaderValue hdrs headerName =
     (case hdrs of
        None \<Rightarrow> None
      | Some hs \<Rightarrow> getHeaderValue_loop hs (map fst hs) headerName)"

subsection \<open>Authentication detection (send, first part)\<close>

definition auth_scheme :: "string \<Rightarrow> string" where
  "auth_scheme authorization = substr authorization 0 (indexOf CHR '' '' authorization)"

definition auth_params :: "string \<Rightarrow> string list" where
  "auth_params authorization =
     split_str CHR '' '' (trim (substr_from authorization (indexOf CHR '' '' authorization)))"

definition detect_auth :: "header_obj option \<Rightarrow> auth option" where
  "detect_auth hdrs =
     (let authorization = getHeaderValue hdrs ''Authorization'' in
      case authorization of
        None \<Rightarrow> None
      | Some a \<Rightarrow>
          if a = [] then None
          else
            (let scheme = auth_scheme a in
             if scheme = ''Digest'' \<or> scheme = ''Basic'' then
               (let params = auth_params a in
                if length params = 2
                then Some \<lparr>user = params ! 0, pass = params ! 1,
                            sendImmediately = (scheme = ''Basic'')\<rparr>
                else None)
             else None))"

subsection \<open>ignoreProxy\<close>

text \<open>The loop over the lowercased, de-duplicated exclusion list.\<close>

fun ignoreProxy_loop :: "string \<Rightarrow> string option \<Rightarrow> string list \<Rightarrow> bool" where
  "ignoreProxy_loop hostName prt [] = False"
| "ignoreProxy_loop hostName prt (eh # rest) =
     (let urlParts = split_str CHR '':'' eh in
      if \<not> truthy_str prt then
        (if length urlParts = 1 \<and> urlParts ! 0 = hostName then True
         else ignoreProxy_loop hostName prt rest)
      else
        (if length urlParts = 1 \<and> urlParts ! 0 = hostName then True
         else if length urlParts = 2 \<and> urlParts ! 0 = hostName \<and> Some (urlParts ! 1) = prt
         then True
         else ignoreProxy_loop hostName prt rest))"

text \<open>\<open>Array.from(new Set(xs))\<close>: the first occurrence of every element, in order.\<close>

definition uniq :: "string list \<Rightarrow> string list" where
  "uniq xs = rev (remdups (rev xs))"

text \<open>
  \<open>url.parse\<close> belongs to the platform and is a parameter. Reading \<open>toLowerCase\<close> of a
  \<open>null\<close> host name raises a \<open>TypeError\<close>.
\<close>

definition ignoreProxy :: "(jsval \<Rightarrow> parsed_url) \<Rightarrow> jsval \<Rightarrow> string list option \<Rightarrow> exn + bool" where
  "ignoreProxy url_parse requestUrl excludeHosts =
     (case excludeHosts of
        None \<Rightarrow> Inr False
      | Some ehs \<Rightarrow>
          if length ehs = 0 then Inr False
          else
            (let resolvedUrl = url_parse requestUrl in
             case hostname resolvedUrl of
               None \<Rightarrow> Inl (TypeError ''Cannot read property 'toLowerCase' of null'')
             | Some h \<Rightarrow>
                 Inr (ignoreProxy_loop (toLowerCase h) (port resolvedUrl)
                        (uniq (map toLowerCase ehs)))))"

subsection \<open>send: building the transport options\<close>

definition send_options :: "(jsval \<Rightarrow> parsed_url) \<Rightarrow> settings \<Rightarrow> http_request \<Rightarrow> exn + options" where
  "send_options url_parse st httpRequest =
     (let au = detect_auth (req_headers httpRequest) in
      case ignoreProxy url_parse (req_url httpRequest) (excludeHostsForProxy st) of
        Inl e \<Rightarrow> Inl e
      | Inr bypass \<Rightarrow>
          (let prx = (if bypass then None else proxy st);
               strict = (if truthy_str prx then proxyStrictSSL st else False);
               hs0 = (case req_headers httpRequest of None \<Rightarrow> [] | Some hs \<Rightarrow> hs);
               hs1 = (if \<not> truthy_str (getHeaderValue (Some hs0) ''User-Agent'')
                      then obj_set hs0 ''User-Agent'' (defaultUserAgent st)
                      else hs0)
           in Inr \<lparr>opt_headers = hs1,
                   opt_method = req_method httpRequest,
                   opt_body = req_body httpRequest,
                   opt_timeout = timeoutInMilliseconds st,
                   opt_followRedirect = followRedirect st,
                   opt_auth = au,
                   opt_proxy = prx,
                   opt_strictSSL = strict\<rparr>))"

subsection \<open>send: the completion callback\<close>

definition header_format_hint :: string where
  "header_format_hint =
     ''Header must be in 'header name: header value' format, '' @
     ''please also make sure there is a blank line between headers and body''"

text \<open>
  \<^verbatim>\<open>if (error.message) { if (error.message.startsWith("Header name must be a valid HTTP Token")) { error.message = ...; } }\<close>
\<close>

definition rewrite_error :: "transport_error \<Rightarrow> transport_error" where
  "rewrite_error err =
     (case message err of
        None \<Rightarrow> err
      | Some m \<Rightarrow>
          if m \<noteq> [] then
            (if startsWith m ''Header name must be a valid HTTP Token''
             then err\<lparr>message := Some header_format_hint\<rparr>
             else err)
          else err)"

text \<open>
  The charset of the response: \<open>MimeUtility.parse(contentType).charset\<close> is a parameter
  (\<open>parse_charset\<close>); a missing or empty result gives \<open>utf8\<close>.
\<close>

definition response_encoding :: "(string \<Rightarrow> string option) \<Rightarrow> header_obj \<Rightarrow> string" where
  "response_encoding parse_charset hs =
     (let contentType = getHeaderValue (Some hs) ''Content-Type'';
          encoding = (if truthy_str contentType then parse_charset (the contentType) else None)
      in if \<not> truthy_str encoding then ''utf8'' else the encoding)"

text \<open>
  \<^verbatim>\<open>try { body = iconv.decode(buffer, encoding); }
  catch (e) { if (encoding !== 'utf8') { body = iconv.decode(buffer, 'utf8'); } }\<close>
  The decoder is a parameter. An exception of the second call is not caught.
\<close>

definition decode_body :: "(buffer \<Rightarrow> string \<Rightarrow> exn + decoded_text) \<Rightarrow> buffer \<Rightarrow> string \<Rightarrow> exn + response_body" where
  "decode_body iconv_decode buf encoding =
     (case iconv_decode buf encoding of
        Inr t \<Rightarrow> Inr (Decoded t)
      | Inl e \<Rightarrow>
          if encoding \<noteq> ''utf8'' then
            (case iconv_decode buf ''utf8'' of
               Inr t \<Rightarrow> Inr (Decoded t)
             | Inl e' \<Rightarrow> Inl e')
          else Inr (Raw buf))"

text \<open>
  The dictionary of raw names and the adjusted headers are object literals \<open>{}\<close> and
  so inherit the properties of \<open>Object.prototype\<close>. Reading \<open>obj[k]\<close> finds the own
  property when there is one and the inherited one otherwise. An inherited value is a
  builtin function (for \<open>__proto__\<close> the prototype object itself): it is truthy, and used
  as a property key it becomes the string the engine prints for it. Assigning a string
  to \<open>obj["__proto__"]\<close> reaches the inherited setter and changes nothing.
\<close>

definition object_prototype_functions :: "string list" where
  "object_prototype_functions =
     [''__defineGetter__'', ''__defineSetter__'', ''hasOwnProperty'', ''__lookupGetter__'',
      ''__lookupSetter__'', ''isPrototypeOf'', ''propertyIsEnumerable'', ''toString'',
      ''valueOf'', ''toLocaleString'']"

definition inherited_key :: "string \<Rightarrow> string option" where
  "inherited_key k =
     (if k = ''__proto__'' then Some ''[object Object]''
      else if k = ''constructor'' then Some ''function Object() { [native code] }''
      else if k \<in> set object_prototype_functions
      then Some (''function '' @ k @ ''() { [native code] }'')
      else None)"

definition plain_set :: "(string \<rightharpoonup> string) \<Rightarrow> string \<Rightarrow> string \<Rightarrow> (string \<rightharpoonup> string)" where
  "plain_set obj k v = (if k = ''__proto__'' then obj else obj(k \<mapsto> v))"

text \<open>
  \<open>obj[k]\<close> read as a condition and then used as a property key: nothing when the value
  is missing or the empty string, otherwise the own string or the string of the
  inherited value.
\<close>

definition plain_get_key :: "(string \<rightharpoonup> string) \<Rightarrow> string \<Rightarrow> string option" where
  "plain_get_key obj k =
     (case obj k of
        Some v \<Rightarrow> (if v = [] then None else Some v)
      | None \<Rightarrow> inherited_key k)"

text \<open>\<^verbatim>\<open>rawHeaders.forEach(header => { result[header.toLowerCase()] = header; })\<close>\<close>

definition raw_name_step :: "string \<Rightarrow> (string \<rightharpoonup> string) \<Rightarrow> (string \<rightharpoonup> string)" where
  "raw_name_step header result = plain_set result (toLowerCase header) header"

definition getResponseRawHeaderNames :: "string list \<Rightarrow> (string \<rightharpoonup> string)" where
  "getResponseRawHeaderNames rawHdrs = fold raw_name_step rawHdrs Map.empty"

text \<open>
  One round of the loop that adjusts the header case, for the property \<open>header\<close> of
  \<open>response.headers\<close> and its value:
  \<^verbatim>\<open>let adjustedHeaderName = header;
  if (headersDic[header]) {
      adjustedHeaderName = headersDic[header];
      adjustedResponseHeaders[headersDic[header]] = response.headers[header];
  }
  adjustedResponseHeaders[adjustedHeaderName] = response.headers[header];\<close>
\<close>

definition adjust_step ::
  "(string \<rightharpoonup> string) \<Rightarrow> string \<times> string \<Rightarrow> (string \<rightharpoonup> string) \<Rightarrow> (string \<rightharpoonup> string)" where
  "adjust_step headersDic entry adjusted =
     (let header = fst entry; v = snd entry in
      case plain_get_key headersDic header of
        Some name \<Rightarrow>
          (let adjustedHeaderName = name;
               adjusted1 = plain_set adjusted name v
           in plain_set adjusted1 adjustedHeaderName v)
      | None \<Rightarrow> plain_set adjusted header v)"

text \<open>
  \<open>for (var header in response.headers)\<close> visits the own properties in enumeration
  order; \<open>response.headers[header]\<close> is the value of the property visited.
\<close>

definition adjust_headers :: "header_obj \<Rightarrow> string list \<Rightarrow> (string \<rightharpoonup> string)" where
  "adjust_headers hs rawHdrs = fold (adjust_step (getResponseRawHeaderNames rawHdrs)) hs Map.empty"

definition request_callback ::
  "(buffer \<Rightarrow> string \<Rightarrow> exn + decoded_text) \<Rightarrow> (string \<Rightarrow> string option) \<Rightarrow> jsval \<Rightarrow> int \<Rightarrow> int \<Rightarrow>
   transport_error option \<Rightarrow> raw_response \<Rightarrow> buffer \<Rightarrow> outcome" where
  "request_callback iconv_decode parse_charset url sz headersSize error response bdy =
     (case error of
        Some err \<Rightarrow> Reject (rewrite_error err)
      | None \<Rightarrow>
          (case decode_body iconv_decode bdy
                  (response_encoding parse_charset (res_headers response)) of
             Inl e \<Rightarrow> Throw e
           | Inr decoded \<Rightarrow>
               Resolve \<lparr>statusCode = res_statusCode response,
                        statusMessage = res_statusMessage response,
                        httpVersion = res_httpVersion response,
                        headers = adjust_headers (res_headers response) (res_rawHeaders response),
                        body = decoded,
                        elapsedTime = res_elapsedTime response,
                        originUrl = url,
                        bodySizeInBytes = sz,
                        headersSizeInBytes = headersSize,
                        bodyStream = bdy,
                        timingPhases = res_timingPhases response\<rparr>))"


section \<open>CurlRequestParser\<close>

text \<open>The flags of the \<open>yargs\<close> result that \<open>parseHttpRequest\<close> reads (\<open>positional\<close> is \<open>_\<close>).\<close>

record argv =
  positional :: "jsval list"
  arg_L :: jsval
  arg_location :: jsval
  arg_compressed :: jsval
  arg_url :: jsval
  arg_H :: jsval
  arg_header :: jsval
  arg_u :: jsval
  arg_user :: jsval
  arg_d :: jsval
  arg_data :: jsval
  arg_data_binary :: jsval
  arg_X :: jsval
  arg_request :: jsval

text \<open>\<^verbatim>\<open>text.replace(/\\\r|\\\n/g, '')\<close>\<close>

fun mergeIntoSingleLine :: "string \<Rightarrow> string" where
  "mergeIntoSingleLine (a # b # rest) =
     (if a = CHR 0x5C \<and> (b = CHR 0x0D \<or> b = CHR 0x0A) then mergeIntoSingleLine rest
      else a # mergeIntoSingleLine (b # rest))"
| "mergeIntoSingleLine s = s"

text \<open>\<^verbatim>\<open>text.replace(/\s{2,}/g, ' ')\<close>\<close>

function mergeMultipleSpacesIntoSingle :: "string \<Rightarrow> string" where
  "mergeMultipleSpacesIntoSingle [] = []"
| "mergeMultipleSpacesIntoSingle (c # cs) =
     (if is_space c \<and> cs \<noteq> [] \<and> is_space (hd cs)
      then CHR '' '' # mergeMultipleSpacesIntoSingle (dropWhile is_space cs)
      else c # mergeMultipleSpacesIntoSingle cs)"
  by pat_completeness auto
termination
  by (relation "measure length") (auto simp: le_imp_less_Suc length_dropWhile_le)

text \<open>The positional argument \<open>_[1]\<close>; \<open>undefined\<close> when the array is shorter.\<close>

definition positional_at :: "jsval list \<Rightarrow> nat \<Rightarrow> jsval" where
  "positional_at xs i = (if i < length xs then xs ! i else Undefined)"

text \<open>
  \<open>yargs\<close>, \<open>RequestParserUtil.parseRequestHeaders\<close> and the base64 encoding of
  \<open>Buffer\<close> are parameters.
\<close>

definition parseHttpRequest ::
  "(string \<Rightarrow> argv) \<Rightarrow> (jsval list \<Rightarrow> header_obj) \<Rightarrow> (jsval \<Rightarrow> string) \<Rightarrow> string \<Rightarrow> http_request" where
  "parseHttpRequest yargs parseRequestHeaders base64 requestRawText =
     (let requestText = mergeMultipleSpacesIntoSingle (mergeIntoSingleLine (trim requestRawText));
          parsedArguments = yargs requestText;
          url0 = positional_at (positional parsedArguments) 1;
          url = (if \<not> truthy url0
                 then js_or (arg_L parsedArguments) (js_or (arg_location parsedArguments)
                        (js_or (arg_compressed parsedArguments) (arg_url parsedArguments)))
                 else url0);
          parsedHeaders = js_or (arg_H parsedArguments) (arg_header parsedArguments);
          hs0 = (if truthy parsedHeaders
                 then parseRequestHeaders
                        (case parsedHeaders of JArr xs \<Rightarrow> xs | v \<Rightarrow> [v])
                 else []);
          usr = js_or (arg_u parsedArguments) (arg_user parsedArguments);
          hs1 = (if truthy usr then obj_set hs0 ''Authorization'' (''Basic '' @ base64 usr)
                 else hs0);
          bdy = js_or (arg_d parsedArguments) (js_or (arg_data parsedArguments)
                  (arg_data_binary parsedArguments));
          method0 = js_or (arg_X parsedArguments) (arg_request parsedArguments);
          method1 = (if \<not> truthy method0
                     then (if truthy bdy then JStr ''POST'' else JStr ''GET'')
                     else method0)
      in \<lparr>req_method = method1, req_url = url, req_headers = Some hs1,
          req_body = bdy, req_rawBody = bdy\<rparr>)"


section \<open>Notions of the specification\<close>

text \<open>
  The proxy bypass rule in the words of the specification: matching is exact-string
  after lowercasing. An entry without a port matches when it is the request host name,
  whether or not the request has a port; an entry with a port matches when it is the
  request host name, a colon and the request port.
\<close>

definition entry_matches :: "string \<Rightarrow> string option \<Rightarrow> string \<Rightarrow> bool" where
  "entry_matches hostName prt entry =
     (entry = hostName \<or>
      (case prt of None \<Rightarrow> False | Some p \<Rightarrow> entry = hostName @ '':'' @ p))"

text \<open>
  Bypass is indicated when the list is present and not empty, the request has a host
  name, and some entry matches.
\<close>

definition proxy_bypass_spec :: "parsed_url \<Rightarrow> string list option \<Rightarrow> bool" where
  "proxy_bypass_spec u excludeHosts =
     (case excludeHosts of
        None \<Rightarrow> False
      | Some ehs \<Rightarrow>
          ehs \<noteq> [] \<and>
          (case hostname u of
             None \<Rightarrow> False
           | Some h \<Rightarrow> (\<exists>eh \<in> set ehs. entry_matches (toLowerCase h) (port u) (toLowerCase eh))))"

text \<open>
  A request without a colon in its host name (every host name but an IPv6 literal), or
  without host name.
\<close>

definition host_without_colon :: "parsed_url \<Rightarrow> bool" where
  "host_without_colon u = (case hostname u of None \<Rightarrow> True | Some h \<Rightarrow> CHR '':'' \<notin> set h)"

text \<open>
  The port that the platform's parser delivers: absent, or a non-empty string without a
  colon (decimal digits).
\<close>

definition port_ok :: "string option \<Rightarrow> bool" where
  "port_ok prt = (case prt of None \<Rightarrow> True | Some p \<Rightarrow> p \<noteq> [] \<and> CHR '':'' \<notin> set p)"

text \<open>
  What one round of the loop in \<open>ignoreProxy\<close> tests, read off the code: the entry is
  split at its colons; one part is compared with the host name, two parts with the host
  name and the port, and an entry of three or more parts is passed over.
\<close>

definition split_entry_matches :: "string \<Rightarrow> string option \<Rightarrow> string \<Rightarrow> bool" where
  "split_entry_matches hostName prt entry =
     (case split_str CHR '':'' entry of
        [h] \<Rightarrow> h = hostName
      | [h, p] \<Rightarrow> h = hostName \<and> prt = Some p
      | _ \<Rightarrow> False)"

text \<open>\<open>trimStart\<close> and \<open>trimEnd\<close>: the two halves of \<open>trim\<close>.\<close>

definition trimStart :: "string \<Rightarrow> string" where
  "trimStart s = dropWhile is_space s"

definition trimEnd :: "string \<Rightarrow> string" where
  "trimEnd s = rev (dropWhile is_space (rev s))"



text \<open>
  No key of the transport's header object reaches a property that the dictionary of raw
  names inherits: a key that names a property of \<open>Object.prototype\<close> is not
  \<open>__proto__\<close> and is the lowercase form of a raw entry. The transport derives its keys
  from the raw list by assignment to a plain object, which gives exactly this.
\<close>

definition no_inherited_lookup :: "string list \<Rightarrow> string list \<Rightarrow> bool" where
  "no_inherited_lookup rawHdrs ks =
     (\<forall>k \<in> set ks. inherited_key k \<noteq> None \<longrightarrow>
        k \<noteq> ''__proto__'' \<and> (\<exists>R \<in> set rawHdrs. toLowerCase R = k))"


section \<open>Fixtures for concrete evaluation\<close>

definition parse_example :: "jsval \<Rightarrow> parsed_url" where
  "parse_example u = \<lparr>hostname = Some ''example.com'', port = None\<rparr>"

definition settings_example :: settings where
  "settings_example =
     \<lparr>timeoutInMilliseconds = 0, followRedirect = True,
      proxy = Some ''http://proxy.local:3128'', proxyStrictSSL = True,
      excludeHostsForProxy = Some [''foo.com:8080''],
      defaultUserAgent = ''vscode-restclient''\<rparr>"

definition request_example :: "header_obj option \<Rightarrow> http_request" where
  "request_example hs =
     \<lparr>req_method = JStr ''GET'', req_url = JStr ''http://example.com/x'',
      req_headers = hs, req_body = Undefined, req_rawBody = Undefined\<rparr>"

text \<open>A decoder that knows \<open>utf8\<close> only and raises on every other encoding name.\<close>

definition decode_example :: "buffer \<Rightarrow> string \<Rightarrow> exn + decoded_text" where
  "decode_example buf encoding =
     (if encoding = ''utf8'' then Inr (map of_char buf)
      else Inl (EncodingError ''Encoding not recognized''))"

text \<open>A charset table that reads \<open>klingon\<close> out of every content type, and a response.\<close>

definition charset_example :: "string \<Rightarrow> string option" where
  "charset_example contentType = Some ''klingon''"

definition response_example :: raw_response where
  "response_example =
     \<lparr>res_statusCode = 200, res_statusMessage = ''OK'', res_httpVersion = ''1.1'',
      res_headers = [(''content-type'', ''text/plain; charset=klingon'')],
      res_rawHeaders = [''Content-Type'', ''text/plain; charset=klingon''],
      res_elapsedTime = 12, res_timingPhases = []\<rparr>"


section \<open>Strings\<close>

lemma lower_char_idem: "lower_char (lower_char c) = lower_char c"
  by (auto simp add: lower_char_def Let_def)

lemma toLowerCase_idem: "toLowerCase (toLowerCase s) = toLowerCase s"
  by (simp add: toLowerCase_def lower_char_idem)

lemma lower_char_ascii: "lower_char (ascii_lower_char c) = lower_char c"
  by (auto simp add: lower_char_def ascii_lower_char_def Let_def)

lemma ascii_case_eq_toLowerCase:
  assumes "ascii_case_eq a b"
  shows "toLowerCase a = toLowerCase b"
proof -
  from assms
  have "map lower_char (map ascii_lower_char a) = map lower_char (map ascii_lower_char b)"
    by (simp add: ascii_case_eq_def)
  then show ?thesis
    by (simp add: toLowerCase_def lower_char_ascii o_def)
qed

lemma indexOf_absent: "c \<notin> set s \<Longrightarrow> indexOf c s = - 1"
  by (induction s) (auto simp: Let_def)

lemma indexOf_append: "c \<notin> set s \<Longrightarrow> indexOf c (s @ c # rest) = int (length s)"
  by (induction s) (auto simp: Let_def)

lemma split_str_no_sep: "c \<notin> set s \<Longrightarrow> split_str c s = [s]"
  by (induction s) auto

lemma split_str_append: "c \<notin> set u \<Longrightarrow> split_str c (u @ c # rest) = u # split_str c rest"
  by (induction u) auto

lemma dropWhile_keep: "xs \<noteq> [] \<Longrightarrow> \<not> P (hd xs) \<Longrightarrow> dropWhile P (xs @ ys) = xs @ ys"
  by (cases xs) auto

lemma is_space_space: "is_space CHR '' ''"
  by (simp add: is_space_def)

lemma trim_halves: "trim s = trimEnd (trimStart s)"
  by (simp add: trim_def trimStart_def trimEnd_def)

lemma set_trimStart: "set (trimStart s) \<subseteq> set s"
  unfolding trimStart_def by (rule set_dropWhileD[THEN subsetI])

lemma set_trimEnd: "set (trimEnd s) \<subseteq> set s"
proof -
  have "set (dropWhile is_space (rev s)) \<subseteq> set (rev s)"
    by (rule set_dropWhileD[THEN subsetI])
  then show ?thesis by (simp add: trimEnd_def)
qed

lemma trimStart_keep: "s \<noteq> [] \<Longrightarrow> \<not> is_space (hd s) \<Longrightarrow> trimStart s = s"
  by (cases s) (simp_all add: trimStart_def)

lemma trimEnd_keep: "s \<noteq> [] \<Longrightarrow> \<not> is_space (last s) \<Longrightarrow> trimEnd s = s"
proof -
  assume "s \<noteq> []" and "\<not> is_space (last s)"
  then have "rev s \<noteq> []" and "\<not> is_space (hd (rev s))" by (simp_all add: hd_rev)
  then have "dropWhile is_space (rev s) = rev s" by (cases "rev s") simp_all
  then show ?thesis by (simp add: trimEnd_def)
qed

lemma trimStart_shorthand:
  "trimStart (CHR '' '' # u @ CHR '' '' # p) =
     (if trimStart u = [] then trimStart p else trimStart u @ CHR '' '' # p)"
  by (simp add: trimStart_def is_space_space dropWhile_append)

lemma trimEnd_shorthand:
  "trimEnd (x @ CHR '' '' # p) =
     (if trimEnd p = [] then trimEnd x else x @ CHR '' '' # trimEnd p)"
proof (cases "trimEnd p = []")
  case True
  then have "\<forall>c \<in> set (rev p). is_space c" by (simp add: trimEnd_def)
  then have "dropWhile is_space (rev p @ CHR '' '' # rev x) = dropWhile is_space (rev x)"
    by (simp add: dropWhile_append is_space_space)
  with True show ?thesis by (simp add: trimEnd_def)
next
  case False
  then have "\<not> (\<forall>c \<in> set (rev p). is_space c)" by (simp add: trimEnd_def)
  then have "dropWhile is_space (rev p @ CHR '' '' # rev x)
               = dropWhile is_space (rev p) @ CHR '' '' # rev x"
    by (auto simp: dropWhile_append)
  with False show ?thesis by (auto simp: trimEnd_def)
qed

lemma trim_shorthand:
  "trim (CHR '' '' # u @ CHR '' '' # p) =
     (if trimStart u = [] then trim p
      else if trimEnd p = [] then trim u
      else trimStart u @ CHR '' '' # trimEnd p)"
  by (simp add: trim_halves trimStart_shorthand trimEnd_shorthand)

lemma split_trim_single:
  assumes "CHR '' '' \<notin> set z"
  shows "split_str CHR '' '' (trim z) = [trim z]"
proof -
  have "CHR '' '' \<notin> set (trimEnd (trimStart z))"
    using assms set_trimStart set_trimEnd by blast
  then show ?thesis by (simp add: trim_halves split_str_no_sep)
qed

lemma shorthand_params:
  assumes u: "CHR '' '' \<notin> set u" and p: "CHR '' '' \<notin> set p"
  shows "split_str CHR '' '' (trim (CHR '' '' # u @ CHR '' '' # p)) =
           (if trimStart u = [] then [trim p]
            else if trimEnd p = [] then [trim u]
            else [trimStart u, trimEnd p])"
proof -
  have su: "CHR '' '' \<notin> set (trimStart u)" using u set_trimStart by blast
  have sp: "CHR '' '' \<notin> set (trimEnd p)" using p set_trimEnd by blast
  show ?thesis
    using su sp split_trim_single[OF u] split_trim_single[OF p]
    by (simp add: trim_shorthand split_str_append split_str_no_sep)
qed


section \<open>Header lookup and the headers of the transport options\<close>

lemma getHeaderValue_loop_cong:
  "(\<And>key. key \<in> set ks \<Longrightarrow> toLowerCase key = toLowerCase name \<Longrightarrow> map_of hs' key = map_of hs key)
   \<Longrightarrow> getHeaderValue_loop hs' ks name = getHeaderValue_loop hs ks name"
  by (induction ks) auto

lemma getHeaderValue_loop_append_other:
  "toLowerCase k \<noteq> toLowerCase name \<Longrightarrow>
   getHeaderValue_loop hs (ks @ [k]) name = getHeaderValue_loop hs ks name"
  by (induction ks) auto

lemma map_fst_obj_set:
  "map fst (obj_set hs k v) = (if k \<in> set (map fst hs) then map fst hs else map fst hs @ [k])"
  by (auto simp: obj_set_def split: prod.splits)

lemma map_of_obj_set_other:
  assumes "key \<noteq> k"
  shows "map_of (obj_set hs k v) key = map_of hs key"
proof (cases "k \<in> set (map fst hs)")
  case True
  from assms
  have "map_of (map (\<lambda>(k', v'). if k' = k then (k', v) else (k', v')) hs) key = map_of hs key"
    by (induction hs) auto
  with True show ?thesis by (simp add: obj_set_def)
next
  case False
  with assms show ?thesis by (simp add: obj_set_def map_add_def split: option.splits)
qed

lemma getHeaderValue_obj_set_other:
  assumes "toLowerCase k \<noteq> toLowerCase name"
  shows "getHeaderValue (Some (obj_set hs k v)) name = getHeaderValue (Some hs) name"
proof -
  have same: "getHeaderValue_loop (obj_set hs k v) ks name = getHeaderValue_loop hs ks name" for ks
  proof (rule getHeaderValue_loop_cong)
    fix key assume "toLowerCase key = toLowerCase name"
    with assms have "key \<noteq> k" by auto
    then show "map_of (obj_set hs k v) key = map_of hs key" by (rule map_of_obj_set_other)
  qed
  show ?thesis
    using assms
    by (simp add: getHeaderValue_def map_fst_obj_set same getHeaderValue_loop_append_other)
qed

lemma lower_ua_auth: "toLowerCase ''User-Agent'' \<noteq> toLowerCase ''Authorization''"
  by (simp add: toLowerCase_def)

lemma send_options_auth:
  "send_options url_parse st r = Inr opts \<Longrightarrow> opt_auth opts = detect_auth (req_headers r)"
  by (auto simp: send_options_def Let_def split: sum.splits)

lemma send_options_headers_cases:
  assumes "send_options url_parse st r = Inr opts"
  shows "opt_headers opts =
           (let hs0 = (case req_headers r of None \<Rightarrow> [] | Some hs \<Rightarrow> hs) in
            if \<not> truthy_str (getHeaderValue (Some hs0) ''User-Agent'')
            then obj_set hs0 ''User-Agent'' (defaultUserAgent st) else hs0)"
  using assms unfolding send_options_def Let_def
  by (auto split: sum.splits if_splits)

lemma send_options_headers_other:
  assumes "send_options url_parse st r = Inr opts"
    and "toLowerCase ''User-Agent'' \<noteq> toLowerCase name"
  shows "getHeaderValue (Some (opt_headers opts)) name = getHeaderValue (req_headers r) name"
proof -
  define hs0 where "hs0 = (case req_headers r of None \<Rightarrow> [] | Some hs \<Rightarrow> hs)"
  have base: "getHeaderValue (Some hs0) name = getHeaderValue (req_headers r) name"
    by (simp add: hs0_def getHeaderValue_def split: option.splits)
  have "opt_headers opts = hs0 \<or> opt_headers opts = obj_set hs0 ''User-Agent'' (defaultUserAgent st)"
    using send_options_headers_cases[OF assms(1)] unfolding Let_def hs0_def
    by (auto split: if_splits)
  then show ?thesis
    using base getHeaderValue_obj_set_other[OF assms(2)] by auto
qed
lemma send_options_total:
  assumes "ignoreProxy url_parse (req_url r) (excludeHostsForProxy st) = Inr bypass"
  shows "\<exists>opts. send_options url_parse st r = Inr opts"
  using assms by (simp add: send_options_def Let_def)


section \<open>Authentication detection\<close>

text \<open>
  Claim C2, as amended. When the Authorization header reads \<open>Basic u p\<close> or
  \<open>Digest u p\<close> with \<open>u\<close> and \<open>p\<close> free of spaces, the part after the scheme is trimmed
  before it is split. Credentials are set exactly when \<open>u\<close> is not all white space and
  \<open>p\<close> is not all white space; the user is \<open>u\<close> without its leading white space, the
  password is \<open>p\<close> without its trailing white space, and \<open>sendImmediately\<close> is true
  exactly for \<open>Basic\<close>. So the credentials are user \<open>u\<close> and password \<open>p\<close> when \<open>u\<close> does
  not start and \<open>p\<close> does not end with white space. When the part after the scheme does
  not split into exactly two pieces (one piece, three or more), no credentials are set.
  Whenever the proxy bypass evaluation returns, the transport options are built, their
  credentials are the detected ones and their Authorization header is the request's.
\<close>

theorem auth_detection:
  assumes "getHeaderValue (req_headers r) ''Authorization'' = Some a"
  shows "(a = scheme @ '' '' @ u @ '' '' @ p \<and> (scheme = ''Basic'' \<or> scheme = ''Digest'')
            \<and> CHR '' '' \<notin> set u \<and> CHR '' '' \<notin> set p \<longrightarrow>
          detect_auth (req_headers r)
            = (if trimStart u \<noteq> [] \<and> trimEnd p \<noteq> []
               then Some \<lparr>user = trimStart u, pass = trimEnd p,
                           sendImmediately = (scheme = ''Basic'')\<rparr>
               else None))
       \<and> (a = scheme @ '' '' @ u @ '' '' @ p \<and> (scheme = ''Basic'' \<or> scheme = ''Digest'')
            \<and> CHR '' '' \<notin> set u \<and> CHR '' '' \<notin> set p
            \<and> u \<noteq> [] \<and> \<not> is_space (hd u) \<and> p \<noteq> [] \<and> \<not> is_space (last p) \<longrightarrow>
          detect_auth (req_headers r)
            = Some \<lparr>user = u, pass = p, sendImmediately = (scheme = ''Basic'')\<rparr>)
       \<and> (length (auth_params a) \<noteq> 2 \<longrightarrow> detect_auth (req_headers r) = None)
       \<and> (ignoreProxy url_parse (req_url r) (excludeHostsForProxy st) = Inr bypass \<longrightarrow>
            (\<exists>opts. send_options url_parse st r = Inr opts
               \<and> opt_auth opts = detect_auth (req_headers r)
               \<and> getHeaderValue (Some (opt_headers opts)) ''Authorization'' = Some a))"
proof -
  have gen: "detect_auth (req_headers r)
            = (if trimStart u \<noteq> [] \<and> trimEnd p \<noteq> []
               then Some \<lparr>user = trimStart u, pass = trimEnd p,
                           sendImmediately = (scheme = ''Basic'')\<rparr>
               else None)"
    if a: "a = scheme @ '' '' @ u @ '' '' @ p" and s: "scheme = ''Basic'' \<or> scheme = ''Digest''"
      and u: "CHR '' '' \<notin> set u" and p: "CHR '' '' \<notin> set p"
  proof -
    have a': "a = scheme @ CHR '' '' # (u @ CHR '' '' # p)" using a by simp
    have "CHR '' '' \<notin> set scheme" using s by auto
    then have ix: "indexOf CHR '' '' a = int (length scheme)"
      unfolding a' by (rule indexOf_append)
    have len: "0 < length scheme" using s by auto
    have st0: "substr_start a 0 = 0" by (simp add: substr_start_def)
    have st: "substr_start a (int (length scheme)) = length scheme"
      by (simp add: substr_start_def a')
    have sch: "auth_scheme a = scheme"
      unfolding auth_scheme_def ix substr_def st0 using len by (simp add: a')
    have rest: "substr_from a (indexOf CHR '' '' a) = CHR '' '' # u @ CHR '' '' # p"
      unfolding ix substr_from_def st by (simp add: a')
    have params: "auth_params a =
           (if trimStart u = [] then [trim p]
            else if trimEnd p = [] then [trim u]
            else [trimStart u, trimEnd p])"
      by (simp add: auth_params_def rest shorthand_params[OF u p])
    have ne: "a \<noteq> []" using a' by simp
    show ?thesis
    proof (cases "trimStart u \<noteq> [] \<and> trimEnd p \<noteq> []")
      case True
      with params have "auth_params a = [trimStart u, trimEnd p]" by simp
      with True ne assms s show ?thesis
        by (auto simp: detect_auth_def Let_def sch)
    next
      case False
      with params have "length (auth_params a) = 1" by auto
      with False ne assms show ?thesis
        by (auto simp: detect_auth_def Let_def)
    qed
  qed
  have plain: "detect_auth (req_headers r)
            = Some \<lparr>user = u, pass = p, sendImmediately = (scheme = ''Basic'')\<rparr>"
    if a: "a = scheme @ '' '' @ u @ '' '' @ p" and s: "scheme = ''Basic'' \<or> scheme = ''Digest''"
      and u: "CHR '' '' \<notin> set u" and p: "CHR '' '' \<notin> set p"
      and un: "u \<noteq> []" and uh: "\<not> is_space (hd u)"
      and pn: "p \<noteq> []" and pl: "\<not> is_space (last p)"
    using gen[OF a s u p] un pn trimStart_keep[OF un uh] trimEnd_keep[OF pn pl] by simp
  have other: "detect_auth (req_headers r) = None" if "length (auth_params a) \<noteq> 2"
    using assms that by (simp add: detect_auth_def Let_def)
  have opts: "\<exists>opts. send_options url_parse st r = Inr opts
               \<and> opt_auth opts = detect_auth (req_headers r)
               \<and> getHeaderValue (Some (opt_headers opts)) ''Authorization'' = Some a"
    if ip: "ignoreProxy url_parse (req_url r) (excludeHostsForProxy st) = Inr bypass"
  proof -
    from send_options_total[OF ip] obtain opts where o: "send_options url_parse st r = Inr opts"
      by blast
    from assms send_options_auth[OF o] send_options_headers_other[OF o lower_ua_auth]
    have "opt_auth opts = detect_auth (req_headers r)
        \<and> getHeaderValue (Some (opt_headers opts)) ''Authorization'' = Some a"
      by simp
    with o show ?thesis by blast
  qed
  from gen plain other opts show ?thesis by blast
qed

theorem auth_detection_witness:
  "detect_auth (Some [(''authorization'', ''Digest alice s3cret'')])
     = Some \<lparr>user = ''alice'', pass = ''s3cret'', sendImmediately = False\<rparr>
   \<and> detect_auth (Some [(''Authorization'', ''Basic alice s3cret extra'')]) = None
   \<and> detect_auth (Some [(''Authorization'', ''Basic YWxpY2U6czNjcmV0'')]) = None
   \<and> (\<exists>opts. send_options parse_example settings_example
                 (request_example (Some [(''Authorization'', ''Basic alice s3cret'')])) = Inr opts
          \<and> opt_auth opts = Some \<lparr>user = ''alice'', pass = ''s3cret'', sendImmediately = True\<rparr>
          \<and> getHeaderValue (Some (opt_headers opts)) ''Authorization''
              = Some ''Basic alice s3cret'')"
proof -
  have b: "getHeaderValue (req_headers (request_example (Some [(''Authorization'', ''Basic alice s3cret'')])))
             ''Authorization'' = Some ''Basic alice s3cret''"
    by code_simp
  have d: "getHeaderValue (req_headers (request_example (Some [(''authorization'', ''Digest alice s3cret'')])))
             ''Authorization'' = Some ''Digest alice s3cret''"
    by code_simp
  have t: "getHeaderValue (req_headers (request_example (Some [(''Authorization'', ''Basic alice s3cret extra'')])))
             ''Authorization'' = Some ''Basic alice s3cret extra''"
    by code_simp
  have s: "getHeaderValue (req_headers (request_example (Some [(''Authorization'', ''Basic YWxpY2U6czNjcmV0'')])))
             ''Authorization'' = Some ''Basic YWxpY2U6czNjcmV0''"
    by code_simp
  have n3: "length (auth_params ''Basic alice s3cret extra'') \<noteq> 2"
    by code_simp
  have n1: "length (auth_params ''Basic YWxpY2U6czNjcmV0'') \<noteq> 2"
    by code_simp
  have u: "CHR '' '' \<notin> set ''alice'' \<and> ''alice'' \<noteq> [] \<and> \<not> is_space (hd ''alice'')"
    by (simp add: is_space_def)
  have p: "CHR '' '' \<notin> set ''s3cret'' \<and> ''s3cret'' \<noteq> [] \<and> \<not> is_space (last ''s3cret'')"
    by (simp add: is_space_def)
  have ip: "ignoreProxy parse_example
              (req_url (request_example (Some [(''Authorization'', ''Basic alice s3cret'')])))
              (excludeHostsForProxy settings_example) = Inr False"
    by code_simp
  note B = auth_detection[OF b, where scheme = "''Basic''" and u = "''alice''" and p = "''s3cret''"
      and url_parse = parse_example and st = settings_example and bypass = False]
  note D = auth_detection[OF d, where scheme = "''Digest''" and u = "''alice''" and p = "''s3cret''"]
  from B[THEN conjunct2, THEN conjunct1] u p
  have cred: "detect_auth (req_headers (request_example (Some [(''Authorization'', ''Basic alice s3cret'')])))
     = Some \<lparr>user = ''alice'', pass = ''s3cret'', sendImmediately = True\<rparr>"
    by simp
  from B[THEN conjunct2, THEN conjunct2, THEN conjunct2] ip cred
  have one: "\<exists>opts. send_options parse_example settings_example
                 (request_example (Some [(''Authorization'', ''Basic alice s3cret'')])) = Inr opts
          \<and> opt_auth opts = Some \<lparr>user = ''alice'', pass = ''s3cret'', sendImmediately = True\<rparr>
          \<and> getHeaderValue (Some (opt_headers opts)) ''Authorization''
              = Some ''Basic alice s3cret''"
    by auto
  from D[THEN conjunct2, THEN conjunct1] u p
  have two: "detect_auth (Some [(''authorization'', ''Digest alice s3cret'')])
     = Some \<lparr>user = ''alice'', pass = ''s3cret'', sendImmediately = False\<rparr>"
    by (simp add: request_example_def)
  from auth_detection[OF t, THEN conjunct2, THEN conjunct2, THEN conjunct1] n3
  have three: "detect_auth (Some [(''Authorization'', ''Basic alice s3cret extra'')]) = None"
    by (simp add: request_example_def)
  from auth_detection[OF s, THEN conjunct2, THEN conjunct2, THEN conjunct1] n1
  have four: "detect_auth (Some [(''Authorization'', ''Basic YWxpY2U6czNjcmV0'')]) = None"
    by (simp add: request_example_def)
  from one two three four show ?thesis by blast
qed

text \<open>
  The claim as stated fails: a password \<open>b\<close> followed by a no-break space and a user
  \<open>a\<close> preceded by a tab are pieces without a space, and the credentials hold \<open>b\<close> and
  \<open>a\<close>.
\<close>

theorem auth_detection_counterexample:
  "CHR '' '' \<notin> set (''b'' @ [CHR 0xA0])
   \<and> detect_auth (Some [(''Authorization'', ''Basic a '' @ (''b'' @ [CHR 0xA0]))])
       = Some \<lparr>user = ''a'', pass = ''b'', sendImmediately = True\<rparr>
   \<and> CHR '' '' \<notin> set (CHR 0x09 # ''a'')
   \<and> detect_auth (Some [(''Authorization'', ''Digest '' @ (CHR 0x09 # ''a'') @ '' b'')])
       = Some \<lparr>user = ''a'', pass = ''b'', sendImmediately = False\<rparr>"
  by code_simp

text \<open>
  Claim C9. An Authorization value without a space character yields the empty scheme
  and no credentials, and the header passes into the transport options as it is. The
  detection is a total function: it has no failing branch.
\<close>

theorem auth_no_space_noop:
  assumes "getHeaderValue (req_headers r) ''Authorization'' = Some a"
    and "CHR '' '' \<notin> set a"
  shows "auth_scheme a = []
       \<and> detect_auth (req_headers r) = None
       \<and> (send_options url_parse st r = Inr opts \<longrightarrow>
             opt_auth opts = None
           \<and> getHeaderValue (Some (opt_headers opts)) ''Authorization'' = Some a)"
proof -
  have scheme: "auth_scheme a = []"
    using assms(2) by (simp add: auth_scheme_def indexOf_absent substr_def)
  have none: "detect_auth (req_headers r) = None"
    using assms(1) scheme by (simp add: detect_auth_def Let_def)
  have "opt_auth opts = None
      \<and> getHeaderValue (Some (opt_headers opts)) ''Authorization'' = Some a"
    if "send_options url_parse st r = Inr opts"
    using that none assms(1) send_options_auth[OF that]
      send_options_headers_other[OF that lower_ua_auth] by simp
  with scheme none show ?thesis by blast
qed

theorem auth_no_space_noop_witness:
  "auth_scheme ''dXNlcjpwYXNz'' = []
   \<and> detect_auth (Some [(''authorization'', ''dXNlcjpwYXNz'')]) = None"
proof -
  have h: "getHeaderValue (req_headers (request_example (Some [(''authorization'', ''dXNlcjpwYXNz'')])))
             ''Authorization'' = Some ''dXNlcjpwYXNz''"
    by code_simp
  have n: "CHR '' '' \<notin> set ''dXNlcjpwYXNz''" by simp
  show ?thesis
    using auth_no_space_noop[OF h n] by (simp add: request_example_def)
qed


section \<open>Proxy and strict TLS\<close>

text \<open>
  Claim C6. Whenever the proxy bypass evaluation returns, the options are built, the
  proxy in effect is the configured one unless bypass is indicated, and \<open>strictSSL\<close>
  takes the value of the proxy-strict-TLS setting when a non-empty proxy is in effect
  (configured and not bypassed) and is false in every other case.
\<close>

theorem strictSSL_gating:
  assumes "ignoreProxy url_parse (req_url r) (excludeHostsForProxy st) = Inr bypass"
  shows "\<exists>opts. send_options url_parse st r = Inr opts
           \<and> opt_proxy opts = (if bypass then None else proxy st)
           \<and> opt_strictSSL opts =
               (if \<not> bypass \<and> (\<exists>p. proxy st = Some p \<and> p \<noteq> []) then proxyStrictSSL st else False)"
  using assms
  by (auto simp: send_options_def Let_def truthy_str_def split: option.splits)

theorem strictSSL_gating_witness:
  "\<exists>opts. send_options parse_example settings_example (request_example None) = Inr opts
     \<and> opt_proxy opts = Some ''http://proxy.local:3128''
     \<and> opt_strictSSL opts = True"
proof -
  have h: "ignoreProxy parse_example (req_url (request_example None))
          (excludeHostsForProxy settings_example) = Inr False"
    by code_simp
  show ?thesis
    using strictSSL_gating[OF h] by (simp add: settings_example_def)
qed


section \<open>The completion callback\<close>

text \<open>
  Claim C5. A dispatch that yields a transport error is rejected with that error and
  never resolved. The message is replaced by the hint about the
  \<open>header name: header value\<close> format exactly when it starts with
  \<open>Header name must be a valid HTTP Token\<close>; otherwise the error is passed on as it is.
\<close>

theorem transport_error_propagation:
  "request_callback iconv_decode parse_charset url sz headersSize (Some err) response bdy =
     Reject (case message err of
               None \<Rightarrow> err
             | Some m \<Rightarrow>
                 if startsWith m ''Header name must be a valid HTTP Token''
                 then err\<lparr>message := Some header_format_hint\<rparr>
                 else err)"
  by (auto simp: request_callback_def rewrite_error_def startsWith_def split: option.splits)

text \<open>
  Claim C4. Provided the decoder accepts the body as \<open>utf8\<close> (the \<open>utf8\<close> decoder of
  iconv-lite accepts every buffer): when decoding with a charset other than \<open>utf8\<close>
  raises, the body is the \<open>utf8\<close> decoding; decoding the body never raises; and the
  callback resolves with a response whose body is the decoding with the charset of the
  response when that succeeds and the \<open>utf8\<close> decoding when it raises.
\<close>

theorem charset_fallback:
  assumes "iconv_decode buf ''utf8'' = Inr t"
  shows "(iconv_decode buf encoding = Inl e \<longrightarrow> encoding \<noteq> ''utf8'' \<longrightarrow>
            decode_body iconv_decode buf encoding = Inr (Decoded t))
       \<and> (\<exists>b. decode_body iconv_decode buf encoding = Inr b)
       \<and> (\<exists>resp. request_callback iconv_decode parse_charset url sz headersSize None response buf
                    = Resolve resp
              \<and> bodyStream resp = buf
              \<and> body resp =
                  (case iconv_decode buf (response_encoding parse_charset (res_headers response)) of
                     Inr t' \<Rightarrow> Decoded t'
                   | Inl e' \<Rightarrow> Decoded t))"
proof -
  have total: "\<exists>b. decode_body iconv_decode buf enc = Inr b" for enc
    using assms by (cases "iconv_decode buf enc") (simp_all add: decode_body_def)
  have fallback: "iconv_decode buf encoding = Inl e \<longrightarrow> encoding \<noteq> ''utf8'' \<longrightarrow>
            decode_body iconv_decode buf encoding = Inr (Decoded t)"
    using assms by (simp add: decode_body_def)
  let ?enc = "response_encoding parse_charset (res_headers response)"
  have dec: "decode_body iconv_decode buf ?enc =
               Inr (case iconv_decode buf ?enc of Inr t' \<Rightarrow> Decoded t' | Inl e' \<Rightarrow> Decoded t)"
  proof (cases "iconv_decode buf ?enc")
    case (Inl e')
    with assms have "?enc \<noteq> ''utf8''" by auto
    with Inl assms show ?thesis by (simp add: decode_body_def)
  next
    case (Inr t')
    then show ?thesis by (simp add: decode_body_def)
  qed
  have "\<exists>resp. request_callback iconv_decode parse_charset url sz headersSize None response buf
                    = Resolve resp
              \<and> bodyStream resp = buf
              \<and> body resp =
                  (case iconv_decode buf ?enc of Inr t' \<Rightarrow> Decoded t' | Inl e' \<Rightarrow> Decoded t)"
    by (simp add: request_callback_def dec)
  with total fallback show ?thesis by blast
qed

theorem charset_fallback_witness:
  "decode_example ''abc'' (response_encoding charset_example (res_headers response_example))
     = Inl (EncodingError ''Encoding not recognized'')
   \<and> (\<exists>resp. request_callback decode_example charset_example (JStr ''http://example.com/x'')
                 3 74 None response_example ''abc'' = Resolve resp
          \<and> body resp = Decoded [97, 98, 99])"
proof -
  have h: "decode_example ''abc'' ''utf8'' = Inr [97, 98, 99]"
    by (simp add: decode_example_def)
  have f: "decode_example ''abc'' (response_encoding charset_example (res_headers response_example))
             = Inl (EncodingError ''Encoding not recognized'')"
    by code_simp
  note inst = charset_fallback[where iconv_decode = decode_example and buf = "''abc''"
        and parse_charset = charset_example and response = response_example
        and url = "JStr ''http://example.com/x''" and sz = 3 and headersSize = 74, OF h]
  from inst[THEN conjunct2, THEN conjunct2] f show ?thesis by auto
qed


section \<open>The curl parser\<close>

text \<open>
  Claim C7. The method of the parsed request is the value of \<open>-X\<close>, else of
  \<open>--request\<close>, when the flag is present; otherwise it is POST when a body was
  extracted from \<open>-d\<close>, \<open>--data\<close> or \<open>--data-binary\<close>, and GET when none was. A flag is
  present, and a body extracted, when the value the argument parser delivers is truthy
  in the sense of JavaScript, which is how the code tests it.
\<close>

theorem curl_method_selection:
  "req_method (parseHttpRequest yargs parseRequestHeaders base64 requestRawText) =
     (let a = yargs (mergeMultipleSpacesIntoSingle (mergeIntoSingleLine (trim requestRawText)));
          r = parseHttpRequest yargs parseRequestHeaders base64 requestRawText
      in if truthy (arg_X a) then arg_X a
         else if truthy (arg_request a) then arg_request a
         else if truthy (req_body r) then JStr ''POST'' else JStr ''GET'')
   \<and> req_body (parseHttpRequest yargs parseRequestHeaders base64 requestRawText) =
     (let a = yargs (mergeMultipleSpacesIntoSingle (mergeIntoSingleLine (trim requestRawText)))
      in if truthy (arg_d a) then arg_d a
         else if truthy (arg_data a) then arg_data a
         else arg_data_binary a)"
  unfolding parseHttpRequest_def Let_def js_or_def by simp

section \<open>Proxy bypass\<close>

lemma split_str_nonempty: "split_str c s \<noteq> []"
  by (induction s) (auto split: list.splits)

lemma split_str_parts:
  "split_str c s = p # ps \<Longrightarrow>
   c \<notin> set p \<and> (if ps = [] then s = p else \<exists>rest. s = p @ c # rest \<and> split_str c rest = ps)"
proof (induction s arbitrary: p ps)
  case Nil
  then show ?case by simp
next
  case (Cons x xs)
  show ?case
  proof (cases "x = c")
    case True
    with Cons.prems have "p = []" and "ps = split_str c xs" by simp_all
    then show ?thesis using True split_str_nonempty[of c xs] by simp
  next
    case False
    obtain q qs where q: "split_str c xs = q # qs"
      using split_str_nonempty[of c xs] by (cases "split_str c xs") simp_all
    with False Cons.prems have p: "p = x # q" and ps: "ps = qs" by simp_all
    from Cons.IH[OF q] False p ps show ?thesis by auto
  qed
qed

lemma of_char_lower_char:
  "(of_char (lower_char c) :: nat) =
     (if (65 \<le> (of_char c :: nat) \<and> (of_char c :: nat) \<le> 90)
         \<or> (192 \<le> (of_char c :: nat) \<and> (of_char c :: nat) \<le> 222 \<and> (of_char c :: nat) \<noteq> 215)
      then of_char c + 32 else of_char c)"
  by (simp add: lower_char_def Let_def)

lemma lower_char_colon: "(lower_char c = CHR '':'') = (c = CHR '':'')"
proof
  assume l: "lower_char c = CHR '':''"
  then have "(of_char (lower_char c) :: nat) = of_char (CHR '':'')" by simp
  then have v: "(of_char (lower_char c) :: nat) = 58" by simp
  have "(of_char c :: nat) = 58"
    using v unfolding of_char_lower_char by (simp split: if_splits)
  then have "(of_char c :: nat) = of_char (CHR '':'')" by simp
  then show "c = CHR '':''" by (simp only: of_char_eq_iff)
next
  assume "c = CHR '':''"
  then show "lower_char c = CHR '':''" by (simp add: lower_char_def)
qed

lemma colon_toLowerCase: "(CHR '':'' \<in> set (toLowerCase h)) = (CHR '':'' \<in> set h)"
proof (induction h)
  case Nil
  show ?case by (simp add: toLowerCase_def)
next
  case (Cons c cs)
  have "(CHR '':'' = lower_char c) = (CHR '':'' = c)"
    using lower_char_colon[of c] by metis
  with Cons show ?case by (simp add: toLowerCase_def)
qed

lemma split_entry_matches_exact:
  assumes "CHR '':'' \<notin> set hostName" and "port_ok prt"
  shows "split_entry_matches hostName prt entry = entry_matches hostName prt entry"
proof
  assume m: "split_entry_matches hostName prt entry"
  obtain a as where parts: "split_str CHR '':'' entry = a # as"
    using m by (cases "split_str CHR '':'' entry") (simp_all add: split_entry_matches_def)
  show "entry_matches hostName prt entry"
  proof (cases as)
    case Nil
    with parts m split_str_parts[OF parts] show ?thesis
      by (simp add: split_entry_matches_def entry_matches_def)
  next
    case (Cons b bs)
    with parts m have bs: "bs = []" and a: "a = hostName" and prt: "prt = Some b"
      by (cases bs; simp add: split_entry_matches_def)+
    from split_str_parts[OF parts] Cons bs
    obtain rest where e: "entry = a @ CHR '':'' # rest" and r: "split_str CHR '':'' rest = [b]"
      by auto
    from split_str_parts[OF r] have "rest = b" by simp
    with e a prt show ?thesis by (simp add: entry_matches_def)
  qed
next
  assume m: "entry_matches hostName prt entry"
  show "split_entry_matches hostName prt entry"
  proof (cases "entry = hostName")
    case True
    with assms(1) show ?thesis by (simp add: split_entry_matches_def split_str_no_sep)
  next
    case False
    with m obtain p where prt: "prt = Some p" and e: "entry = hostName @ CHR '':'' # p"
      by (cases prt) (auto simp: entry_matches_def)
    from assms(2) prt have "CHR '':'' \<notin> set p" by (simp add: port_ok_def)
    with assms(1) e prt show ?thesis
      by (simp add: split_entry_matches_def split_str_append split_str_no_sep)
  qed
qed

lemma split_entry_matches_colon_host:
  assumes "CHR '':'' \<in> set hostName"
  shows "\<not> split_entry_matches hostName prt entry"
proof
  assume m: "split_entry_matches hostName prt entry"
  obtain a as where parts: "split_str CHR '':'' entry = a # as"
    using m by (cases "split_str CHR '':'' entry") (simp_all add: split_entry_matches_def)
  from split_str_parts[OF parts] have free: "CHR '':'' \<notin> set a" by simp
  from m parts have "a = hostName"
    by (cases as; cases "tl as") (auto simp: split_entry_matches_def)
  with free assms show False by simp
qed

lemma ignoreProxy_step:
  assumes "prt \<noteq> Some []"
  shows "ignoreProxy_loop hostName prt (eh # rest) =
           (split_entry_matches hostName prt eh \<or> ignoreProxy_loop hostName prt rest)"
proof (cases "split_str CHR '':'' eh")
  case Nil
  then show ?thesis by (simp add: split_entry_matches_def)
next
  case (Cons a as)
  note outer = Cons
  show ?thesis
  proof (cases as)
    case Nil
    with outer show ?thesis by (auto simp: split_entry_matches_def)
  next
    case (Cons b bs)
    with outer assms show ?thesis
      by (cases bs; cases prt) (auto simp: split_entry_matches_def truthy_str_def)
  qed
qed

lemma ignoreProxy_loop_iff:
  assumes "prt \<noteq> Some []"
  shows "ignoreProxy_loop hostName prt ehs = (\<exists>eh \<in> set ehs. split_entry_matches hostName prt eh)"
proof (induction ehs)
  case Nil
  show ?case by simp
next
  case (Cons eh rest)
  have "ignoreProxy_loop hostName prt (eh # rest) =
           (split_entry_matches hostName prt eh \<or> ignoreProxy_loop hostName prt rest)"
    using assms by (rule ignoreProxy_step)
  with Cons show ?case by simp
qed

lemma set_uniq: "set (uniq xs) = set xs"
  by (simp add: uniq_def)

lemma port_ok_nonempty: "port_ok prt \<Longrightarrow> prt \<noteq> Some []"
  by (auto simp: port_ok_def)

lemma ignoreProxy_value:
  assumes "port_ok (port (url_parse requestUrl))"
    and "hostname (url_parse requestUrl) = Some h"
  shows "ignoreProxy url_parse requestUrl excludeHosts =
           Inr (case excludeHosts of
                  None \<Rightarrow> False
                | Some ehs \<Rightarrow> \<exists>eh \<in> set ehs.
                    split_entry_matches (toLowerCase h) (port (url_parse requestUrl)) (toLowerCase eh))"
proof (cases excludeHosts)
  case None
  then show ?thesis by (simp add: ignoreProxy_def)
next
  case (Some ehs)
  show ?thesis
  proof (cases "ehs = []")
    case True
    with Some show ?thesis by (simp add: ignoreProxy_def)
  next
    case False
    with Some assms(2) show ?thesis
      by (simp add: ignoreProxy_def Let_def
          ignoreProxy_loop_iff[OF port_ok_nonempty[OF assms(1)]] set_uniq)
  qed
qed

lemma ignoreProxy_host:
  assumes "port_ok (port (url_parse requestUrl))"
    and "hostname (url_parse requestUrl) = Some h"
    and "CHR '':'' \<notin> set h"
  shows "ignoreProxy url_parse requestUrl excludeHosts
           = Inr (proxy_bypass_spec (url_parse requestUrl) excludeHosts)"
proof -
  have "CHR '':'' \<notin> set (toLowerCase h)" using assms(3) by (simp add: colon_toLowerCase)
  then have same: "split_entry_matches (toLowerCase h) (port (url_parse requestUrl)) e
              = entry_matches (toLowerCase h) (port (url_parse requestUrl)) e" for e
    using assms(1) by (rule split_entry_matches_exact)
  show ?thesis
    unfolding ignoreProxy_value[where url_parse = url_parse and requestUrl = requestUrl,
        OF assms(1,2)]
    using assms(2) by (cases excludeHosts) (auto simp: proxy_bypass_spec_def same)
qed

lemma ignoreProxy_colon_host:
  assumes "port_ok (port (url_parse requestUrl))"
    and "hostname (url_parse requestUrl) = Some h"
    and "CHR '':'' \<in> set h"
  shows "ignoreProxy url_parse requestUrl excludeHosts = Inr False"
proof -
  have "CHR '':'' \<in> set (toLowerCase h)" using assms(3) by (simp add: colon_toLowerCase)
  then have never: "\<not> split_entry_matches (toLowerCase h) (port (url_parse requestUrl)) e" for e
    by (rule split_entry_matches_colon_host)
  show ?thesis
    unfolding ignoreProxy_value[where url_parse = url_parse and requestUrl = requestUrl,
        OF assms(1,2)]
    by (cases excludeHosts) (simp_all add: never)
qed

lemma ignoreProxy_no_host:
  assumes "hostname (url_parse requestUrl) = None"
  shows "ignoreProxy url_parse requestUrl excludeHosts \<noteq> Inr True"
    and "\<not> proxy_bypass_spec (url_parse requestUrl) excludeHosts"
  using assms
  by (auto simp: ignoreProxy_def proxy_bypass_spec_def Let_def split: option.splits)

text \<open>
  Claim C3, as amended. Let the parsed port be absent or a non-empty string without a
  colon. For a request whose host name contains no colon (or is missing) and every
  exclusion list, \<open>ignoreProxy\<close> returns true exactly when the rule of the
  specification indicates bypass: the list is not empty and, after lowercasing, some
  entry is the request host name, or is the request host name, a colon and the request
  port. With such a host name in the URL the function returns that truth value. For a
  host name that contains a colon (an IPv6 literal) it returns false whatever the list,
  since entries are split at colons. An absent or empty list gives false. The four
  requests of the specification against the list \<open>example.com\<close>, \<open>foo.com:8080\<close>
  come out as stated, the parsed host name and port being those of each URL.
\<close>

theorem proxy_bypass:
  assumes "port_ok (port (url_parse requestUrl))"
  shows "(host_without_colon (url_parse requestUrl) \<longrightarrow>
            (ignoreProxy url_parse requestUrl excludeHosts = Inr True)
              = proxy_bypass_spec (url_parse requestUrl) excludeHosts)
       \<and> (hostname (url_parse requestUrl) = Some h \<and> CHR '':'' \<notin> set h \<longrightarrow>
            ignoreProxy url_parse requestUrl excludeHosts
              = Inr (proxy_bypass_spec (url_parse requestUrl) excludeHosts))
       \<and> (hostname (url_parse requestUrl) = Some h \<and> CHR '':'' \<in> set h \<longrightarrow>
            ignoreProxy url_parse requestUrl excludeHosts = Inr False)
       \<and> ignoreProxy url_parse requestUrl None = Inr False
       \<and> ignoreProxy url_parse requestUrl (Some []) = Inr False
       \<and> ignoreProxy (\<lambda>u. \<lparr>hostname = Some ''example.com'', port = None\<rparr>)
            (JStr ''http://example.com/x'') (Some [''example.com'', ''foo.com:8080'']) = Inr True
       \<and> ignoreProxy (\<lambda>u. \<lparr>hostname = Some ''example.com'', port = Some ''9999''\<rparr>)
            (JStr ''http://example.com:9999/x'') (Some [''example.com'', ''foo.com:8080'']) = Inr True
       \<and> ignoreProxy (\<lambda>u. \<lparr>hostname = Some ''foo.com'', port = Some ''8080''\<rparr>)
            (JStr ''http://foo.com:8080/x'') (Some [''example.com'', ''foo.com:8080'']) = Inr True
       \<and> ignoreProxy (\<lambda>u. \<lparr>hostname = Some ''foo.com'', port = Some ''9090''\<rparr>)
            (JStr ''http://foo.com:9090/x'') (Some [''example.com'', ''foo.com:8080'']) = Inr False"
proof -
  have iff: "(ignoreProxy url_parse requestUrl excludeHosts = Inr True)
            = proxy_bypass_spec (url_parse requestUrl) excludeHosts"
    if hc: "host_without_colon (url_parse requestUrl)"
  proof (cases "hostname (url_parse requestUrl)")
    case None
    from ignoreProxy_no_host[where url_parse = url_parse and requestUrl = requestUrl, OF None]
    show ?thesis by simp
  next
    case (Some h')
    with hc have "CHR '':'' \<notin> set h'" by (simp add: host_without_colon_def)
    from ignoreProxy_host[where url_parse = url_parse and requestUrl = requestUrl,
        OF assms Some this]
    show ?thesis by simp
  qed
  have host: "ignoreProxy url_parse requestUrl excludeHosts
              = Inr (proxy_bypass_spec (url_parse requestUrl) excludeHosts)"
    if "hostname (url_parse requestUrl) = Some h" and "CHR '':'' \<notin> set h"
    using ignoreProxy_host[where url_parse = url_parse and requestUrl = requestUrl,
        OF assms that] .
  have colon: "ignoreProxy url_parse requestUrl excludeHosts = Inr False"
    if "hostname (url_parse requestUrl) = Some h" and "CHR '':'' \<in> set h"
    using ignoreProxy_colon_host[where url_parse = url_parse and requestUrl = requestUrl,
        OF assms that] .
  have absent: "ignoreProxy url_parse requestUrl None = Inr False"
    by (simp add: ignoreProxy_def)
  have empty: "ignoreProxy url_parse requestUrl (Some []) = Inr False"
    by (simp add: ignoreProxy_def)
  have e1: "ignoreProxy (\<lambda>u. \<lparr>hostname = Some ''example.com'', port = None\<rparr>)
            (JStr ''http://example.com/x'') (Some [''example.com'', ''foo.com:8080'']) = Inr True"
    by code_simp
  have e2: "ignoreProxy (\<lambda>u. \<lparr>hostname = Some ''example.com'', port = Some ''9999''\<rparr>)
            (JStr ''http://example.com:9999/x'') (Some [''example.com'', ''foo.com:8080'']) = Inr True"
    by code_simp
  have e3: "ignoreProxy (\<lambda>u. \<lparr>hostname = Some ''foo.com'', port = Some ''8080''\<rparr>)
            (JStr ''http://foo.com:8080/x'') (Some [''example.com'', ''foo.com:8080'']) = Inr True"
    by code_simp
  have e4: "ignoreProxy (\<lambda>u. \<lparr>hostname = Some ''foo.com'', port = Some ''9090''\<rparr>)
            (JStr ''http://foo.com:9090/x'') (Some [''example.com'', ''foo.com:8080'']) = Inr False"
    by code_simp
  from iff host colon absent empty e1 e2 e3 e4 show ?thesis by blast
qed

theorem proxy_bypass_witness:
  "ignoreProxy (\<lambda>u. \<lparr>hostname = Some ''Foo.com'', port = Some ''8080''\<rparr>)
     (JStr ''http://Foo.com:8080/x'') (Some [''example.com'', ''FOO.com:8080'']) = Inr True
   \<and> ignoreProxy (\<lambda>u. \<lparr>hostname = Some ''foo.com'', port = None\<rparr>)
     (JStr ''http://foo.com/x'') (Some [''example.com'', ''foo.com:8080'']) = Inr False
   \<and> ignoreProxy (\<lambda>u. \<lparr>hostname = Some ''::1'', port = None\<rparr>)
     (JStr ''http://[::1]/x'') (Some [''localhost'', ''[::1]'']) = Inr False"
proof -
  have p1: "port_ok (port \<lparr>hostname = Some ''Foo.com'', port = Some ''8080''\<rparr>)"
    by (simp add: port_ok_def)
  have p2: "port_ok (port \<lparr>hostname = Some ''foo.com'', port = None\<rparr>)"
    by (simp add: port_ok_def)
  have p3: "port_ok (port \<lparr>hostname = Some ''::1'', port = None\<rparr>)"
    by (simp add: port_ok_def)
  have s1: "proxy_bypass_spec \<lparr>hostname = Some ''Foo.com'', port = Some ''8080''\<rparr>
              (Some [''example.com'', ''FOO.com:8080''])"
    by code_simp
  have s2: "\<not> proxy_bypass_spec \<lparr>hostname = Some ''foo.com'', port = None\<rparr>
              (Some [''example.com'', ''foo.com:8080''])"
    by code_simp
  note a = proxy_bypass[where url_parse = "\<lambda>u. \<lparr>hostname = Some ''Foo.com'', port = Some ''8080''\<rparr>"
      and requestUrl = "JStr ''http://Foo.com:8080/x''" and h = "''Foo.com''"
      and excludeHosts = "Some [''example.com'', ''FOO.com:8080'']", OF p1,
      THEN conjunct2, THEN conjunct1]
  note b = proxy_bypass[where url_parse = "\<lambda>u. \<lparr>hostname = Some ''foo.com'', port = None\<rparr>"
      and requestUrl = "JStr ''http://foo.com/x''" and h = "''foo.com''"
      and excludeHosts = "Some [''example.com'', ''foo.com:8080'']", OF p2,
      THEN conjunct2, THEN conjunct1]
  note c = proxy_bypass[where url_parse = "\<lambda>u. \<lparr>hostname = Some ''::1'', port = None\<rparr>"
      and requestUrl = "JStr ''http://[::1]/x''" and h = "''::1''"
      and excludeHosts = "Some [''localhost'', ''[::1]'']", OF p3,
      THEN conjunct2, THEN conjunct2, THEN conjunct1]
  from a s1 b s2 c show ?thesis by simp
qed

text \<open>
  The claim as stated fails: for the request \<open>http://[::1]:8080/x\<close>, whose host name is
  \<open>::1\<close>, the entry \<open>::1\<close> has no port and equals the host name, and
  \<open>ignoreProxy\<close> returns false.
\<close>

theorem proxy_bypass_counterexample:
  "proxy_bypass_spec \<lparr>hostname = Some ''::1'', port = Some ''8080''\<rparr> (Some [''::1''])
   \<and> ignoreProxy (\<lambda>u. \<lparr>hostname = Some ''::1'', port = Some ''8080''\<rparr>)
        (JStr ''http://[::1]:8080/x'') (Some [''::1'']) = Inr False"
  by code_simp


section \<open>Case-insensitive header lookup and the default User-Agent\<close>

lemma getHeaderValue_loop_find:
  "getHeaderValue_loop hs ks name =
     (case find (\<lambda>k. toLowerCase k = toLowerCase name) ks of
        None \<Rightarrow> None
      | Some k \<Rightarrow> map_of hs k)"
  by (induction ks) simp_all

lemma getHeaderValue_loop_unique:
  assumes "k \<in> set ks" and "toLowerCase k = toLowerCase name"
    and "\<forall>k' \<in> set ks. toLowerCase k' = toLowerCase name \<longrightarrow> k' = k"
  shows "getHeaderValue_loop hs ks name = map_of hs k"
  using assms(1,3)
proof (induction ks)
  case Nil
  then show ?case by simp
next
  case (Cons x xs)
  show ?case
  proof (cases "toLowerCase x = toLowerCase name")
    case True
    with Cons.prems(2) have "x = k" by simp
    with True show ?thesis by simp
  next
    case False
    with assms(2) have "x \<noteq> k" by auto
    with Cons.prems(1) have "k \<in> set xs" by simp
    moreover from Cons.prems(2)
    have "\<forall>k' \<in> set xs. toLowerCase k' = toLowerCase name \<longrightarrow> k' = k" by simp
    ultimately have "getHeaderValue_loop hs xs name = map_of hs k" by (rule Cons.IH)
    with False show ?thesis by simp
  qed
qed

lemma getHeaderValue_loop_None:
  assumes "set ks \<subseteq> set (map fst hs)"
  shows "(getHeaderValue_loop hs ks name = None)
           = (\<forall>k' \<in> set ks. toLowerCase k' \<noteq> toLowerCase name)"
  using assms
proof (induction ks)
  case Nil
  show ?case by simp
next
  case (Cons k ks)
  from Cons.prems have "k \<in> set (map fst hs)" by simp
  then have some: "map_of hs k \<noteq> None" by (simp add: map_of_eq_None_iff)
  from Cons.prems have "set ks \<subseteq> set (map fst hs)" by simp
  from Cons.IH[OF this] some show ?case by simp
qed

text \<open>
  Claim C8, as amended. \<open>getHeaderValue\<close> returns the value of the first key, in the
  enumeration order of the object, that equals the queried name after lowercasing, and
  \<open>null\<close> exactly when no key does. So a key that equals the name up to ASCII case is
  found whenever it is the only such key; a header stored as \<open>Content-Type\<close> is found
  as \<open>content-type\<close>. The default User-Agent is put into the headers exactly when this
  lookup for \<open>User-Agent\<close> gives \<open>null\<close> or the empty string: when no such header is
  present, or the first one has an empty value.
\<close>

theorem header_lookup_user_agent:
  assumes "distinct (map fst hs)"
  shows "getHeaderValue (Some hs) name =
           (case find (\<lambda>k. toLowerCase k = toLowerCase name) (map fst hs) of
              None \<Rightarrow> None
            | Some k \<Rightarrow> map_of hs k)
       \<and> ((k, v) \<in> set hs \<and> ascii_case_eq k name
            \<and> (\<forall>k' \<in> set (map fst hs). toLowerCase k' = toLowerCase name \<longrightarrow> k' = k)
          \<longrightarrow> getHeaderValue (Some hs) name = Some v)
       \<and> getHeaderValue (Some [(''Content-Type'', v)]) ''content-type'' = Some v
       \<and> ((getHeaderValue (Some hs) name = None)
            = (\<forall>k' \<in> set (map fst hs). toLowerCase k' \<noteq> toLowerCase name))
       \<and> (send_options url_parse st r = Inr opts \<and> req_headers r = Some hs \<longrightarrow>
            opt_headers opts =
              (if getHeaderValue (Some hs) ''User-Agent'' = None
                  \<or> getHeaderValue (Some hs) ''User-Agent'' = Some []
               then obj_set hs ''User-Agent'' (defaultUserAgent st)
               else hs))"
proof -
  have first: "getHeaderValue (Some hs) name =
           (case find (\<lambda>k. toLowerCase k = toLowerCase name) (map fst hs) of
              None \<Rightarrow> None
            | Some k \<Rightarrow> map_of hs k)"
    by (simp add: getHeaderValue_def getHeaderValue_loop_find)
  have uniq: "getHeaderValue (Some hs) name = Some v"
    if mem: "(k, v) \<in> set hs" and eq: "ascii_case_eq k name"
      and one: "\<forall>k' \<in> set (map fst hs). toLowerCase k' = toLowerCase name \<longrightarrow> k' = k"
  proof -
    have "k \<in> set (map fst hs)" using mem by force
    moreover have "toLowerCase k = toLowerCase name"
      using eq by (rule ascii_case_eq_toLowerCase)
    ultimately have "getHeaderValue_loop hs (map fst hs) name = map_of hs k"
      using one by (rule getHeaderValue_loop_unique)
    moreover have "map_of hs k = Some v" using assms mem by simp
    ultimately show ?thesis by (simp add: getHeaderValue_def)
  qed
  have ct: "getHeaderValue (Some [(''Content-Type'', v)]) ''content-type'' = Some v"
    by (simp add: getHeaderValue_def toLowerCase_def lower_char_def char_of_def bit_iff_odd)
  have none: "(getHeaderValue (Some hs) name = None)
            = (\<forall>k' \<in> set (map fst hs). toLowerCase k' \<noteq> toLowerCase name)"
    unfolding getHeaderValue_def option.case
    by (rule getHeaderValue_loop_None) simp
  have ua: "opt_headers opts =
              (if getHeaderValue (Some hs) ''User-Agent'' = None
                  \<or> getHeaderValue (Some hs) ''User-Agent'' = Some []
               then obj_set hs ''User-Agent'' (defaultUserAgent st)
               else hs)"
    if "send_options url_parse st r = Inr opts" and "req_headers r = Some hs"
    using send_options_headers_cases[OF that(1)] that(2)
    by (cases "getHeaderValue (Some hs) ''User-Agent''") (simp_all add: truthy_str_def)
  from first uniq ct none ua show ?thesis by blast
qed

theorem header_lookup_user_agent_witness:
  "getHeaderValue (Some [(''Accept'', ''*/*''), (''user-agent'', ''curl/8'')]) ''User-Agent''
     = Some ''curl/8''"
proof -
  have d: "distinct (map fst [(''Accept'', ''*/*''), (''user-agent'', ''curl/8'')])"
    by simp
  have m: "(''user-agent'', ''curl/8'') \<in> set [(''Accept'', ''*/*''), (''user-agent'', ''curl/8'')]"
    by simp
  have e: "ascii_case_eq ''user-agent'' ''User-Agent''"
    by code_simp
  have o: "\<forall>k' \<in> set (map fst [(''Accept'', ''*/*''), (''user-agent'', ''curl/8'')]).
             toLowerCase k' = toLowerCase ''User-Agent'' \<longrightarrow> k' = ''user-agent''"
    by code_simp
  note inst = header_lookup_user_agent[where k = "''user-agent''" and v = "''curl/8''"
        and name = "''User-Agent''", OF d]
  from inst[THEN conjunct2, THEN conjunct1] m e o show ?thesis by blast
qed

text \<open>
  The claim as stated fails: a request that carries a \<open>User-Agent\<close> header with an
  empty value still gets the default, and of two keys that differ in case only the
  first one is the one returned.
\<close>

theorem user_agent_counterexample:
  "getHeaderValue (Some [(''User-Agent'', '''')]) ''User-Agent'' = Some ''''
   \<and> map_sum id opt_headers
        (send_options parse_example settings_example (request_example (Some [(''User-Agent'', '''')])))
       = Inr [(''User-Agent'', ''vscode-restclient'')]
   \<and> getHeaderValue (Some [(''Content-Type'', ''a''), (''content-type'', ''b'')]) ''content-type''
       = Some ''a''"
  by code_simp

section \<open>Response header case\<close>
























text \<open>
  Without the condition on inherited properties the loop leaves the transport's key
  behind: a key \<open>constructor\<close> that has no raw entry is stored under the string of the
  inherited function.
\<close>

lemma inherited_lookup_example:
  "adjust_headers [(''constructor'', ''yes'')] [] ''function Object() { [native code] }'' = Some ''yes''
   \<and> adjust_headers [(''constructor'', ''yes'')] [] ''constructor'' = None
   \<and> \<not> no_inherited_lookup [] [''constructor'']"
  by code_simp

end
